theory Spec2Isabelle
  imports Main "HOL-Library.Sublist"
begin

section \<open>The file-header hook \<^verbatim>\<open>.pre-commit-hooks/check_file_header.py\<close>\<close>

text \<open>
  The hook is one Python script: \<^verbatim>\<open>fix_file_header(filepath)\<close> reads a file, checks
  that its first line is the comment \<^verbatim>\<open>// <path>\<close> and its second line is blank,
  repairs the line list where it is not, and writes the list back; \<^verbatim>\<open>main()\<close> runs it
  over \<^verbatim>\<open>sys.argv[1:]\<close> and turns the results into the exit code.

  The embedding keeps the script's structure: the string operations it calls, the
  file system and the console as an explicit world that is passed along, exceptions of
  \<^verbatim>\<open>open\<close> as values, and the \<^verbatim>\<open>for\<close> loop of \<^verbatim>\<open>main\<close> as a recursive function.
\<close>

subsection \<open>Python strings\<close>

text \<open>
  A Python \<^verbatim>\<open>str\<close> is a sequence of Unicode code points, so it is a list of naturals
  here (not of bytes): \<^verbatim>\<open>str.rstrip\<close> strips code points such as U+00A0, and the
  script's messages hold code points beyond ASCII. \<open>py\<close> reads an ASCII literal.
\<close>

type_synonym pystr = "nat list"

definition py :: "string \<Rightarrow> pystr" where
  "py s = map of_char s"

text \<open>The line feed \<^verbatim>\<open>'\n'\<close>.\<close>

definition nl :: pystr where
  "nl = [10]"

text \<open>
  \<^verbatim>\<open>str.isspace\<close> on one code point: the code points CPython's
  \<^verbatim>\<open>_PyUnicode_IsWhitespace\<close> accepts (U+0009..U+000D, U+001C..U+0020, U+0085, U+00A0,
  U+1680, U+2000..U+200A, U+2028, U+2029, U+202F, U+205F, U+3000).
\<close>

definition isspace :: "nat \<Rightarrow> bool" where
  "isspace c = ((9 \<le> c \<and> c \<le> 13) \<or> (28 \<le> c \<and> c \<le> 32) \<or> c = 133 \<or> c = 160
     \<or> c = 5760 \<or> (8192 \<le> c \<and> c \<le> 8202) \<or> c = 8232 \<or> c = 8233 \<or> c = 8239
     \<or> c = 8287 \<or> c = 12288)"

text \<open>\<^verbatim>\<open>s.rstrip()\<close>: \<open>s\<close> without its trailing whitespace.\<close>

definition rstrip :: "pystr \<Rightarrow> pystr" where
  "rstrip s = rev (dropWhile isspace (rev s))"

text \<open>\<^verbatim>\<open>s.startswith(pre)\<close>.\<close>

definition startswith :: "pystr \<Rightarrow> pystr \<Rightarrow> bool" where
  "startswith s pre = prefix pre s"

text \<open>\<^verbatim>\<open>sub in s\<close>: \<open>sub\<close> occurs in \<open>s\<close> as a contiguous substring.\<close>

fun contains :: "pystr \<Rightarrow> pystr \<Rightarrow> bool" where
  "contains [] sub = (sub = [])"
| "contains (c # s) sub = (prefix sub (c # s) \<or> contains s sub)"

text \<open>\<^verbatim>\<open>s.replace(old, new)\<close> for one-character \<open>old\<close> and \<open>new\<close>, as the script calls it.\<close>

definition replace :: "pystr \<Rightarrow> nat \<Rightarrow> nat \<Rightarrow> pystr" where
  "replace s old new = map (\<lambda>c. if c = old then new else c) s"

text \<open>
  \<^verbatim>\<open>xs.insert(i, x)\<close> for \<open>i \<ge> 0\<close>: Python inserts before position \<open>i\<close>, and appends
  when \<open>i\<close> is past the end.
\<close>

definition insert_at :: "nat \<Rightarrow> 'a \<Rightarrow> 'a list \<Rightarrow> 'a list" where
  "insert_at i x xs = take i xs @ x # drop i xs"

subsection \<open>Text files and the console\<close>

text \<open>
  The script opens files in text mode with the default \<^verbatim>\<open>newline=None\<close>. On reading,
  Python turns each \<^verbatim>\<open>'\r\n'\<close> and each remaining \<^verbatim>\<open>'\r'\<close> into \<^verbatim>\<open>'\n'\<close>, and
  \<^verbatim>\<open>readlines()\<close> cuts the text after every \<^verbatim>\<open>'\n'\<close>; a last line without a line
  feed is returned as it is.
\<close>

fun universal_newlines :: "pystr \<Rightarrow> pystr" where
  "universal_newlines [] = []"
| "universal_newlines [c] = (if c = 13 then [10] else [c])"
| "universal_newlines (c # d # s) =
     (if c = 13 \<and> d = 10 then 10 # universal_newlines s
      else if c = 13 then 10 # universal_newlines (d # s)
      else c # universal_newlines (d # s))"

fun split_lines :: "pystr \<Rightarrow> pystr list" where
  "split_lines [] = []"
| "split_lines (c # s) =
     (if c = 10 then [c] # split_lines s
      else (case split_lines s of [] \<Rightarrow> [[c]] | l # ls \<Rightarrow> (c # l) # ls))"

definition readlines :: "pystr \<Rightarrow> pystr list" where
  "readlines raw = split_lines (universal_newlines raw)"

text \<open>
  \<^verbatim>\<open>f.writelines(lines)\<close> writes the strings one after the other and adds nothing. The
  model is of a POSIX system, where text mode writes \<^verbatim>\<open>'\n'\<close> as it is.
\<close>

definition writelines :: "pystr list \<Rightarrow> pystr" where
  "writelines ls = concat ls"

text \<open>
  A write-back that raises. \<^verbatim>\<open>open(filepath, 'w')\<close> may raise itself, and the file is
  then as it was (\<open>Open_fails\<close>). Once it has returned the file is truncated, and
  \<^verbatim>\<open>writelines\<close> or the close at the end of the \<^verbatim>\<open>with\<close> block may still raise
  (\<open>Write_fails\<close>): the file then holds what reached it before, empty or cut short,
  given as what reading it gives afterwards. Both carry the message of the exception.
\<close>

datatype write_failure = Open_fails pystr | Write_fails pystr "pystr + pystr"

fun failure_message :: "write_failure \<Rightarrow> pystr" where
  "failure_message (Open_fails e) = e"
| "failure_message (Write_fails e left) = e"

fun file_after :: "write_failure \<Rightarrow> pystr + pystr \<Rightarrow> pystr + pystr" where
  "file_after (Open_fails e) before = before"
| "file_after (Write_fails e left) before = left"

text \<open>
  The world the script runs in. \<open>files w p\<close> is what opening \<open>p\<close> for reading gives:
  the decoded text of the file, or the message of the exception that \<^verbatim>\<open>open\<close> or
  \<^verbatim>\<open>readlines\<close> raises (no such file, no permission, not UTF-8).
  \<open>write_error w p\<close> is how writing \<open>p\<close> back fails, if it fails. \<open>log w\<close> records, in
  order, every \<^verbatim>\<open>open\<close> the script attempts and every line it prints.
\<close>

datatype event = Open_r pystr | Open_w pystr | Printed pystr

record world =
  files :: "pystr \<Rightarrow> pystr + pystr"
  write_error :: "pystr \<Rightarrow> write_failure option"
  log :: "event list"

definition print :: "pystr \<Rightarrow> world \<Rightarrow> world" where
  "print s w = w\<lparr>log := log w @ [Printed s]\<rparr>"

fun prints :: "pystr list \<Rightarrow> world \<Rightarrow> world" where
  "prints [] w = w"
| "prints (s # ss) w = prints ss (print s w)"

text \<open>
  \<^verbatim>\<open>with open(filepath, 'r', encoding='utf-8') as f: lines = f.readlines()\<close>:
  \<open>Inl e\<close> when it raises.
\<close>

definition open_readlines :: "pystr \<Rightarrow> world \<Rightarrow> (pystr + pystr list) \<times> world" where
  "open_readlines filepath w =
     (case files w filepath of
        Inl e \<Rightarrow> (Inl e, w\<lparr>log := log w @ [Open_r filepath]\<rparr>)
      | Inr raw \<Rightarrow> (Inr (readlines raw), w\<lparr>log := log w @ [Open_r filepath]\<rparr>))"

text \<open>
  \<^verbatim>\<open>with open(filepath, 'w', encoding='utf-8') as f: f.writelines(lines)\<close>:
  \<open>Some e\<close> when it raises, with the file as the failure leaves it; \<open>None\<close> when the
  file now holds the lines.
\<close>

definition open_writelines :: "pystr \<Rightarrow> pystr list \<Rightarrow> world \<Rightarrow> pystr option \<times> world" where
  "open_writelines filepath ls w =
     (case write_error w filepath of
        Some f \<Rightarrow> (Some (failure_message f),
                   w\<lparr>files := (files w)(filepath := file_after f (files w filepath)),
                     log := log w @ [Open_w filepath]\<rparr>)
      | None \<Rightarrow> (None, w\<lparr>files := (files w)(filepath := Inr (writelines ls)),
                          log := log w @ [Open_w filepath]\<rparr>))"

subsection \<open>\<^verbatim>\<open>fix_file_header\<close>\<close>

text \<open>
  \<^verbatim>\<open>expected_path = filepath.replace('\\', '/')\<close> and
  \<^verbatim>\<open>expected_comment = f"// {expected_path}"\<close>; 92 is the backslash, 47 the slash.
\<close>

definition expected_comment :: "pystr \<Rightarrow> pystr" where
  "expected_comment filepath = py ''// '' @ replace filepath 92 47"

text \<open>The messages; U+2705 and U+274C are the check mark and the cross of the script.\<close>

definition fixed_msg :: "pystr \<Rightarrow> string \<Rightarrow> pystr" where
  "fixed_msg filepath what = [9989] @ py '' '' @ filepath @ py '': '' @ py what"

definition error_msg :: "string \<Rightarrow> pystr \<Rightarrow> pystr \<Rightarrow> pystr" where
  "error_msg doing filepath e =
     [10060] @ py '' Error '' @ py doing @ py '' '' @ filepath @ py '': '' @ e"

text \<open>
  The check-and-fix phase (the script from \<^verbatim>\<open>needs_fix = False\<close> to the write-back),
  on the lines read: it gives the lines as they are to be written, \<^verbatim>\<open>needs_fix\<close>, and
  the lines it printed. \<open>lines ! 0\<close> is read only when the list is not empty, and
  \<open>lines ! 1\<close> only when it has two elements, as in the script.
\<close>

definition check_and_fix ::
    "pystr \<Rightarrow> pystr \<Rightarrow> pystr list \<Rightarrow> pystr list \<times> bool \<times> pystr list" where
  "check_and_fix filepath expected lines0 =
     (if length lines0 = 0 then
        ([expected @ nl, nl], True, [fixed_msg filepath ''Added header to empty file''])
      else
        let first_line = rstrip (lines0 ! 0);
            (lines1, needs_fix1, out1) =
              (if \<not> startswith first_line (py ''//'') then
                 (insert_at 1 nl (insert_at 0 (expected @ nl) lines0), True,
                  [fixed_msg filepath ''Added missing header comment''])
               else if first_line \<noteq> expected then
                 (lines0[0 := expected @ nl], True,
                  [fixed_msg filepath ''Fixed header path'',
                   py ''   Was: '' @ first_line,
                   py ''   Now: '' @ expected])
               else (lines0, False, []))
        in
          if length lines1 < 2 then
            (insert_at 1 nl lines1, True,
             out1 @ [fixed_msg filepath ''Added missing blank line after header''])
          else if rstrip (lines1 ! 1) \<noteq> [] then
            (insert_at 1 nl lines1, True,
             out1 @ [fixed_msg filepath ''Added blank line after header''])
          else (lines1, needs_fix1, out1))"

text \<open>
  \<^verbatim>\<open>fix_file_header(filepath)\<close>: \<open>True\<close> is the script's "already valid",
  \<open>False\<close> its "was fixed". Both \<^verbatim>\<open>except Exception\<close> branches return \<open>True\<close>.
\<close>

definition fix_file_header :: "pystr \<Rightarrow> world \<Rightarrow> bool \<times> world" where
  "fix_file_header filepath w =
     (case open_readlines filepath w of
        (Inl e, w1) \<Rightarrow> (True, print (error_msg ''reading'' filepath e) w1)
      | (Inr lines0, w1) \<Rightarrow>
          (case check_and_fix filepath (expected_comment filepath) lines0 of
             (lines1, needs_fix, out) \<Rightarrow>
               let w2 = prints out w1 in
               if needs_fix then
                 (case open_writelines filepath lines1 w2 of
                    (Some e, w3) \<Rightarrow> (True, print (error_msg ''writing'' filepath e) w3)
                  | (None, w3) \<Rightarrow> (False, w3))
               else (True, w2)))"

subsection \<open>\<^verbatim>\<open>main\<close>\<close>

text \<open>The test that makes the loop skip a path.\<close>

definition skipped :: "pystr \<Rightarrow> bool" where
  "skipped filepath = (contains filepath (py ''node_modules'') \<or> contains filepath (py ''.git''))"

text \<open>The \<^verbatim>\<open>for filepath in files_to_check\<close> loop, with \<^verbatim>\<open>all_valid\<close> as it goes.\<close>

fun check_files :: "pystr list \<Rightarrow> bool \<Rightarrow> world \<Rightarrow> bool \<times> world" where
  "check_files [] all_valid w = (all_valid, w)"
| "check_files (filepath # rest) all_valid w =
     (if skipped filepath then check_files rest all_valid w
      else
        (case fix_file_header filepath w of
           (ok, w1) \<Rightarrow> check_files rest (if \<not> ok then False else all_valid) w1))"

text \<open>
  \<^verbatim>\<open>main()\<close> on \<^verbatim>\<open>sys.argv\<close>: the exit code and the world it leaves. U+2728 is the
  sparkles sign of the last message, which starts with a line feed.
\<close>

definition main :: "pystr list \<Rightarrow> world \<Rightarrow> int \<times> world" where
  "main argv w =
     (if length argv < 2 then (0, print (py ''No files to check'') w)
      else
        (case check_files (drop 1 argv) True w of
           (all_valid, w1) \<Rightarrow>
             if \<not> all_valid then
               (1, print (nl @ [10024] @
                    py '' Files were automatically fixed! Run git add to stage the changes.'') w1)
             else (0, w1)))"

subsection \<open>Outcomes of a run, example worlds, line lists\<close>

text \<open>
  The results of \<^verbatim>\<open>fix_file_header\<close> on the files a run processes, in order: the paths
  the loop skips have none, and each call starts in the world the call before it left.
  It follows the words of the specification ("if any file's outcome was Fixed"), to be
  compared with \<open>main\<close>; \<open>False\<close> is the outcome Fixed.
\<close>

fun outcomes :: "pystr list \<Rightarrow> world \<Rightarrow> bool list" where
  "outcomes [] w = []"
| "outcomes (filepath # rest) w =
     (if skipped filepath then outcomes rest w
      else fst (fix_file_header filepath w) # outcomes rest (snd (fix_file_header filepath w)))"

text \<open>
  A world to run the script in: the files \<open>fs\<close> (path and text), of which those in \<open>ro\<close>
  cannot be opened for writing; no other path can be opened for reading; nothing is logged yet.
\<close>

definition world_of :: "(pystr \<times> pystr) list \<Rightarrow> pystr list \<Rightarrow> world" where
  "world_of fs ro =
     \<lparr>files = (\<lambda>p. case map_of fs p of
                      Some text \<Rightarrow> Inr text
                    | None \<Rightarrow> Inl (py ''[Errno 2] No such file or directory'')),
      write_error = (\<lambda>p. if p \<in> set ro then Some (Open_fails (py ''[Errno 13] Permission denied''))
                         else None),
      log = []\<rparr>"

text \<open>
  The same world on a full disk: every file can be opened for writing, which truncates
  it, and the write then fails and leaves it empty.
\<close>

definition disk_full :: "world \<Rightarrow> world" where
  "disk_full w =
     w\<lparr>write_error :=
         (\<lambda>p. Some (Write_fails (py ''[Errno 28] No space left on device'') (Inr [])))\<rparr>"

text \<open>
  The shape of what \<^verbatim>\<open>readlines\<close> returns. A line is terminated when it ends in its
  only line feed and holds no carriage return; in a line list every line but the last is
  terminated, and the last is not empty and holds a line feed at its end at most.
\<close>

definition terminated :: "pystr \<Rightarrow> bool" where
  "terminated l = (l \<noteq> [] \<and> last l = 10 \<and> 10 \<notin> set (butlast l) \<and> 13 \<notin> set l)"

fun line_list :: "pystr list \<Rightarrow> bool" where
  "line_list [] = True"
| "line_list [l] = (l \<noteq> [] \<and> 10 \<notin> set (butlast l) \<and> 13 \<notin> set l)"
| "line_list (l # m # ls) = (terminated l \<and> line_list (m # ls))"

subsection \<open>String facts\<close>

lemma rstrip_append_nl: "rstrip (s @ nl) = rstrip s"
  by (simp add: rstrip_def nl_def isspace_def)

lemma rstrip_nl: "rstrip nl = []"
  by (simp add: rstrip_def nl_def isspace_def)

text \<open>\<open>rstrip\<close> cuts a suffix of whitespace off, and nothing else.\<close>

lemma rstrip_decomp: "\<exists>t. s = rstrip s @ t \<and> (\<forall>c \<in> set t. isspace c)"
proof -
  have "rev s = takeWhile isspace (rev s) @ dropWhile isspace (rev s)" by simp
  then have "s = rev (dropWhile isspace (rev s)) @ rev (takeWhile isspace (rev s))"
    by (metis rev_append rev_rev_ident)
  moreover have "\<forall>c \<in> set (rev (takeWhile isspace (rev s))). isspace c"
    by (auto dest: set_takeWhileD)
  ultimately show ?thesis unfolding rstrip_def by blast
qed

lemma slash_not_space: "\<not> isspace 47"
  by (simp add: isspace_def)

text \<open>
  The script tests \<^verbatim>\<open>startswith('//')\<close> on the right-trimmed first line; the slash is
  no whitespace, so the test is the same on the line itself.
\<close>

lemma startswith_rstrip: "startswith (rstrip s) (py ''//'') = startswith s (py ''//'')"
proof -
  obtain t where s: "s = rstrip s @ t" and t: "\<forall>c \<in> set t. isspace c"
    using rstrip_decomp by blast
  have t47: "\<And>u. t \<noteq> 47 # u" using t slash_not_space by auto
  show ?thesis
  proof (cases "rstrip s")
    case Nil
    with s have "s = t" by simp
    with Nil t47 show ?thesis by (cases t) (auto simp: startswith_def py_def)
  next
    case (Cons x r)
    note outer = Cons
    show ?thesis
    proof (cases r)
      case Nil
      with outer s have "s = x # t" by simp
      with outer Nil t47 show ?thesis by (cases t) (auto simp: startswith_def py_def)
    next
      case (Cons y r')
      with outer s have "s = x # y # r' @ t" by simp
      with outer Cons show ?thesis by (simp add: startswith_def py_def)
    qed
  qed
qed

lemma expected_startswith: "startswith (expected_comment p) (py ''//'')"
  by (simp add: expected_comment_def startswith_def py_def)

lemma insert_at_0: "insert_at 0 x xs = x # xs"
  by (simp add: insert_at_def)

lemma insert_at_1: "insert_at (Suc 0) y (x # xs) = x # y # xs"
  by (simp add: insert_at_def)

subsection \<open>The check-and-fix phase on the lines read\<close>




text \<open>The definitions to unfold when the script is run on a concrete file.\<close>

lemmas eval_defs = check_and_fix_def expected_comment_def py_def nl_def rstrip_def isspace_def
  startswith_def insert_at_def replace_def Let_def

subsection \<open>The invariant of the check-and-fix phase\<close>

lemma rstrip_last: "rstrip s \<noteq> [] \<Longrightarrow> \<not> isspace (last (rstrip s))"
  unfolding rstrip_def
  by (metis (full_types) hd_dropWhile last_rev rev_is_Nil_conv)

lemma rstrip_idem: "rstrip (rstrip s) = rstrip s"
proof (cases "rstrip s = []")
  case True then show ?thesis by (simp add: rstrip_def)
next
  case False
  then have "\<not> isspace (last (rstrip s))" by (rule rstrip_last)
  then have "dropWhile isspace (rev (rstrip s)) = rev (rstrip s)"
    using False by (cases "rev (rstrip s)") (auto simp: last_rev hd_rev[symmetric] dest!: arg_cong[where f=hd])
  then show ?thesis by (simp add: rstrip_def)
qed

lemma rstrip_fixed_iff: "rstrip s = s \<longleftrightarrow> (s = [] \<or> \<not> isspace (last s))"
proof (cases "s = []")
  case True then show ?thesis by (simp add: rstrip_def)
next
  case False
  then obtain c r where r: "rev s = c # r" by (cases "rev s") auto
  then have l: "last s = c" by (metis last_rev list.sel(1) rev_rev_ident hd_rev rev_is_Nil_conv False)
  show ?thesis
  proof (cases "isspace c")
    case True
    have "length (dropWhile isspace (rev s)) \<le> length r" using r True
      by (simp add: length_dropWhile_le)
    then have "length (rstrip s) < length s" using r
      by (metis length_rev rstrip_def le_imp_less_Suc length_Cons)
    with True l False show ?thesis by auto
  next
    case False
    with r l \<open>s \<noteq> []\<close> show ?thesis by (simp add: rstrip_def)
  qed
qed

text \<open>
  The expected header is its own right-trimmed form exactly when the path is not empty and
  does not end in whitespace.
\<close>

lemma expected_comment_trimmed:
  "rstrip (expected_comment p) = expected_comment p \<longleftrightarrow> (p \<noteq> [] \<and> \<not> isspace (last p))"
proof (cases "p = []")
  case True
  then show ?thesis by (simp add: expected_comment_def replace_def py_def rstrip_def isspace_def)
next
  case False
  then have "last (expected_comment p) = (if last p = 92 then 47 else last p)"
    by (simp add: expected_comment_def replace_def last_map)
  moreover have "isspace (if last p = 92 then 47 else last p) = isspace (last p)"
    by (simp add: isspace_def)
  moreover have "expected_comment p \<noteq> []" by (simp add: expected_comment_def py_def)
  ultimately show ?thesis using False by (simp add: rstrip_fixed_iff)
qed

text \<open>
  C9, as the script has it. For every path and every list of lines read, the list after
  the check-and-fix phase has two lines or more; its first line, right-trimmed, is the
  right-trimmed expected header (by \<open>expected_comment_trimmed\<close> the expected header
  itself, unless the path is empty or ends in whitespace); its second line, right-trimmed,
  is empty. No line is deleted: the result is the header and a blank line put in front of
  the list read, or the list read with its first line kept or replaced by the header, and
  with or without one blank line inserted after it.
\<close>

theorem check_and_fix_invariant:
  "2 \<le> length (fst (check_and_fix p (expected_comment p) lines0))
   \<and> rstrip (fst (check_and_fix p (expected_comment p) lines0) ! 0) = rstrip (expected_comment p)
   \<and> rstrip (fst (check_and_fix p (expected_comment p) lines0) ! 1) = []
   \<and> (fst (check_and_fix p (expected_comment p) lines0) = (expected_comment p @ nl) # nl # lines0
      \<or> lines0 \<noteq> [] \<and>
        (\<exists>x. (x = lines0 ! 0 \<or> x = expected_comment p @ nl) \<and>
           (fst (check_and_fix p (expected_comment p) lines0) = x # tl lines0
            \<or> fst (check_and_fix p (expected_comment p) lines0) = x # nl # tl lines0)))"
proof (cases lines0)
  case Nil
  then show ?thesis
    by (simp add: check_and_fix_def rstrip_append_nl rstrip_nl)
next
  case (Cons l ls)
  have idem: "rstrip l = expected_comment p \<Longrightarrow> rstrip (expected_comment p) = expected_comment p"
    using rstrip_idem [of l] by simp
  show ?thesis
  proof (cases ls)
    case Nil
    with Cons idem show ?thesis
      by (auto simp add: check_and_fix_def Let_def startswith_rstrip insert_at_0 insert_at_1
            rstrip_append_nl rstrip_nl)
  next
    case (Cons m ms)
    with \<open>lines0 = l # ls\<close> idem show ?thesis
      by (auto simp add: check_and_fix_def Let_def startswith_rstrip insert_at_0 insert_at_1
            rstrip_append_nl rstrip_nl)
  qed
qed

theorem check_and_fix_invariant_witness:
  "fst (check_and_fix (py ''src/bot.js'') (expected_comment (py ''src/bot.js''))
          [py ''x = 1'' @ nl])
     = [py ''// src/bot.js'' @ nl, nl, py ''x = 1'' @ nl]
   \<and> rstrip (fst (check_and_fix (py ''src/bot.js'') (expected_comment (py ''src/bot.js''))
          [py ''x = 1'' @ nl]) ! 0) = rstrip (expected_comment (py ''src/bot.js''))
   \<and> rstrip (fst (check_and_fix (py ''src/bot.js'') (expected_comment (py ''src/bot.js''))
          [py ''x = 1'' @ nl]) ! 1) = []"
  using check_and_fix_invariant [of "py ''src/bot.js''" "[py ''x = 1'' @ nl]"]
  by (simp add: eval_defs)

text \<open>
  C9 as stated fails for a path that ends in whitespace: the expected header then ends in
  whitespace too, and no right-trimmed line equals it.
\<close>

theorem trailing_space_path_counterexample:
  "fst (check_and_fix (py ''a.js '') (expected_comment (py ''a.js '')) [py ''x = 1'' @ nl])
     = [py ''// a.js '' @ nl, nl, py ''x = 1'' @ nl]
   \<and> rstrip (fst (check_and_fix (py ''a.js '') (expected_comment (py ''a.js ''))
          [py ''x = 1'' @ nl]) ! 0) = py ''// a.js''
   \<and> rstrip (fst (check_and_fix (py ''a.js '') (expected_comment (py ''a.js ''))
          [py ''x = 1'' @ nl]) ! 0) \<noteq> py ''// '' @ replace (py ''a.js '') 92 47"
  by (simp add: eval_defs)

subsection \<open>Lines read, lines written\<close>

text \<open>What is written is read back as it was written when it is a line list.\<close>

lemma universal_newlines_no_cr: "13 \<notin> set (universal_newlines s)"
  by (induction s rule: universal_newlines.induct) auto

lemma universal_newlines_id: "13 \<notin> set s \<Longrightarrow> universal_newlines s = s"
  by (induction s rule: universal_newlines.induct) auto

lemma split_lines_Nil_iff: "split_lines s = [] \<longleftrightarrow> s = []"
  by (cases s) (auto split: list.splits)


lemma line_list_Cons: "terminated l \<Longrightarrow> line_list ls \<Longrightarrow> line_list (l # ls)"
  by (cases ls) (auto simp: terminated_def)

lemma line_list_tl: "line_list ls \<Longrightarrow> line_list (tl ls)"
  by (induction ls rule: line_list.induct) auto

lemma line_list_hd_terminated: "line_list (l # m # ls) \<Longrightarrow> terminated l"
  by simp

lemma line_list_push:
  "c \<noteq> 10 \<Longrightarrow> c \<noteq> 13 \<Longrightarrow> line_list (l # ls) \<Longrightarrow> line_list ((c # l) # ls)"
  by (cases ls) (auto simp: terminated_def)

lemma line_list_split_lines: "13 \<notin> set s \<Longrightarrow> line_list (split_lines s)"
proof (induction s)
  case Nil
  then show ?case by simp
next
  case (Cons c s)
  then have ih: "line_list (split_lines s)" by simp
  show ?case
  proof (cases "c = 10")
    case True
    have "terminated [10]" by (simp add: terminated_def)
    with True ih show ?thesis by (simp add: line_list_Cons)
  next
    case False
    with Cons.prems ih show ?thesis
      by (cases "split_lines s") (auto intro: line_list_push)
  qed
qed

lemma split_lines_line: "10 \<notin> set body \<Longrightarrow> split_lines (body @ 10 # s) = (body @ [10]) # split_lines s"
  by (induction body) auto

lemma split_lines_last: "l \<noteq> [] \<Longrightarrow> 10 \<notin> set l \<Longrightarrow> split_lines l = [l]"
proof (induction l)
  case Nil
  then show ?case by simp
next
  case (Cons c l)
  then show ?case by (cases "l = []") auto
qed

lemma terminated_decomp: "terminated l \<Longrightarrow> l = butlast l @ [10]"
  by (metis append_butlast_last_id terminated_def)

lemma split_lines_concat: "line_list ls \<Longrightarrow> split_lines (concat ls) = ls"
proof (induction ls rule: line_list.induct)
  case 1
  then show ?case by simp
next
  case (2 l)
  show ?case
  proof (cases "last l = 10")
    case True
    with 2 have "l = butlast l @ [10]" by (metis append_butlast_last_id line_list.simps(2))
    moreover from 2 have "10 \<notin> set (butlast l)" by simp
    ultimately show ?thesis using split_lines_line [of "butlast l" "[]"] by simp
  next
    case False
    with 2 have "10 \<notin> set l" by (metis append_butlast_last_id line_list.simps(2) rotate1.simps(2) set_ConsD set_rotate1)
    with 2 show ?thesis by (simp add: split_lines_last)
  qed
next
  case (3 l m ls)
  then have t: "terminated l" and r: "split_lines (concat (m # ls)) = m # ls" by simp_all
  from t obtain b where d: "l = b @ [10]" and n: "10 \<notin> set b"
    using terminated_decomp terminated_def by blast
  have "concat (l # m # ls) = b @ 10 # concat (m # ls)"
    unfolding d by simp
  then have "split_lines (concat (l # m # ls)) = (b @ [10]) # split_lines (concat (m # ls))"
    using split_lines_line [OF n] by simp
  with d r show ?case by simp
qed

lemma line_list_no_cr: "line_list ls \<Longrightarrow> 13 \<notin> set (concat ls)"
  by (induction ls rule: line_list.induct) (auto simp: terminated_def)

lemma readlines_is_line_list: "line_list (readlines raw)"
  by (simp add: readlines_def line_list_split_lines universal_newlines_no_cr)

lemma readlines_writelines:
  assumes "line_list ls"
  shows "readlines (writelines ls) = ls"
proof -
  have "universal_newlines (concat ls) = concat ls"
    using assms by (intro universal_newlines_id line_list_no_cr)
  with assms show ?thesis
    unfolding readlines_def writelines_def by (simp only: split_lines_concat)
qed

lemma terminated_nl: "terminated nl"
  by (simp add: terminated_def nl_def)

lemma nl_facts: "nl \<noteq> []" "butlast nl = []" "13 \<notin> set nl"
  by (simp_all add: nl_def)

lemma terminated_expected:
  "10 \<notin> set p \<Longrightarrow> 13 \<notin> set p \<Longrightarrow> terminated (expected_comment p @ nl)"
  by (auto simp add: terminated_def expected_comment_def replace_def nl_def py_def)

lemma check_and_fix_line_list:
  assumes "line_list lines0" and "terminated (e @ nl)"
    and "\<not> (\<exists>l. lines0 = [l] \<and> rstrip l = e \<and> last l \<noteq> 10)"
  shows "line_list (fst (check_and_fix p e lines0))"
proof (cases lines0)
  case Nil
  with assms(2) terminated_nl show ?thesis
    by (simp add: check_and_fix_def terminated_def nl_def)
next
  case (Cons l ls)
  note outer = Cons
  show ?thesis
  proof (cases ls)
    case Nil
    with outer assms(1) have l: "l \<noteq> []" "10 \<notin> set (butlast l)" "13 \<notin> set l" by simp_all
    have m: "rstrip l = e \<Longrightarrow> terminated l"
      using assms(3) outer Nil l by (simp add: terminated_def)
    from outer Nil assms(1,2) terminated_nl m show ?thesis
      by (auto simp add: check_and_fix_def Let_def insert_at_0 insert_at_1 nl_facts
            intro!: line_list_Cons)
  next
    case (Cons m ms)
    with outer assms(1) have "terminated l" "line_list (m # ms)" by simp_all
    with outer Cons assms(2) terminated_nl show ?thesis
      by (auto simp add: check_and_fix_def Let_def insert_at_0 insert_at_1 nl_facts
            intro!: line_list_Cons)
  qed
qed

lemma first_two_lines:
  "(fst (check_and_fix p e lines0) ! 0 = e @ nl
      \<or> lines0 \<noteq> [] \<and> fst (check_and_fix p e lines0) ! 0 = lines0 ! 0 \<and> rstrip (lines0 ! 0) = e)
   \<and> (fst (check_and_fix p e lines0) ! 1 = nl
      \<or> 2 \<le> length lines0 \<and> fst (check_and_fix p e lines0) ! 1 = lines0 ! 1
          \<and> rstrip (lines0 ! 1) = [])"
proof (cases lines0)
  case Nil
  then show ?thesis by (simp add: check_and_fix_def)
next
  case (Cons l ls)
  show ?thesis
  proof (cases ls)
    case Nil
    with Cons show ?thesis
      by (auto simp add: check_and_fix_def Let_def insert_at_0 insert_at_1)
  next
    case (Cons m ms)
    with \<open>lines0 = l # ls\<close> show ?thesis
      by (auto simp add: check_and_fix_def Let_def insert_at_0 insert_at_1)
  qed
qed

lemma check_and_fix_length: "2 \<le> length (fst (check_and_fix p e lines0))"
proof (cases lines0)
  case Nil
  then show ?thesis by (simp add: check_and_fix_def)
next
  case (Cons l ls)
  then show ?thesis
    by (cases ls) (auto simp add: check_and_fix_def Let_def insert_at_0 insert_at_1)
qed

subsection \<open>\<^verbatim>\<open>fix_file_header\<close> in the world\<close>

lemma files_print: "files (print s w) = files w"
  and write_error_print: "write_error (print s w) = write_error w"
  and log_print: "log (print s w) = log w @ [Printed s]"
  by (simp_all add: print_def)

lemma prints_eq: "prints out w = w\<lparr>log := log w @ map Printed out\<rparr>"
  by (induction out arbitrary: w) (simp_all add: print_def)

lemma fix_file_header_unreadable:
  "files w p = Inl e \<Longrightarrow>
   fix_file_header p w = (True, w\<lparr>log := log w @ [Open_r p, Printed (error_msg ''reading'' p e)]\<rparr>)"
  by (simp add: fix_file_header_def open_readlines_def print_def)

lemma fix_file_header_readable:
  assumes "files w p = Inr raw"
    and "check_and_fix p (expected_comment p) (readlines raw) = (ls, fx, out)"
  shows "fix_file_header p w =
    (if fx then
       (case write_error w p of
          Some f \<Rightarrow> (True, w\<lparr>files := (files w)(p := file_after f (Inr raw)),
                             log := log w @ [Open_r p] @ map Printed out @
                                [Open_w p, Printed (error_msg ''writing'' p (failure_message f))]\<rparr>)
        | None \<Rightarrow> (False, w\<lparr>files := (files w)(p := Inr (writelines ls)),
                             log := log w @ [Open_r p] @ map Printed out @ [Open_w p]\<rparr>))
     else (True, w\<lparr>log := log w @ [Open_r p] @ map Printed out\<rparr>))"
  using assms
  by (simp add: fix_file_header_def open_readlines_def open_writelines_def prints_eq print_def
        split: option.splits)

text \<open>What a call does to a file it can read, by the outcome of the check-and-fix phase.\<close>

lemma fix_file_header_written:
  assumes "files w p = Inr raw"
    and "fst (snd (check_and_fix p (expected_comment p) (readlines raw)))"
    and "write_error w p = None"
  shows "fst (fix_file_header p w) = False"
    and "files (snd (fix_file_header p w)) =
           (files w)(p := Inr (writelines (fst (check_and_fix p (expected_comment p) (readlines raw)))))"
    and "write_error (snd (fix_file_header p w)) = write_error w"
proof -
  obtain ls fx out where c: "check_and_fix p (expected_comment p) (readlines raw) = (ls, fx, out)"
    by (cases "check_and_fix p (expected_comment p) (readlines raw)") auto
  with assms(2) have fx by simp
  with fix_file_header_readable [OF assms(1) c] assms(3) c
  show "fst (fix_file_header p w) = False"
    and "files (snd (fix_file_header p w)) =
           (files w)(p := Inr (writelines (fst (check_and_fix p (expected_comment p) (readlines raw)))))"
    and "write_error (snd (fix_file_header p w)) = write_error w"
    by simp_all
qed

lemma fix_file_header_not_written:
  assumes "files w p = Inr raw"
    and "\<not> fst (snd (check_and_fix p (expected_comment p) (readlines raw)))"
  shows "fst (fix_file_header p w) = True"
    and "files (snd (fix_file_header p w)) = files w"
    and "write_error (snd (fix_file_header p w)) = write_error w"
proof -
  obtain ls fx out where c: "check_and_fix p (expected_comment p) (readlines raw) = (ls, fx, out)"
    by (cases "check_and_fix p (expected_comment p) (readlines raw)") auto
  with assms(2) have "\<not> fx" by simp
  with fix_file_header_readable [OF assms(1) c]
  show "fst (fix_file_header p w) = True"
    and "files (snd (fix_file_header p w)) = files w"
    and "write_error (snd (fix_file_header p w)) = write_error w"
    by simp_all
qed

lemma pair_from_fst: "fst x = a \<Longrightarrow> x = (a, snd x)"
  by (cases x) simp

lemma fix_file_header_write_fails:
  assumes "files w p = Inr raw"
    and "fst (snd (check_and_fix p (expected_comment p) (readlines raw)))"
    and "write_error w p = Some f"
  shows "fst (fix_file_header p w) = True"
    and "files (snd (fix_file_header p w)) = (files w)(p := file_after f (Inr raw))"
    and "write_error (snd (fix_file_header p w)) = write_error w"
proof -
  obtain ls fx out where c: "check_and_fix p (expected_comment p) (readlines raw) = (ls, fx, out)"
    by (cases "check_and_fix p (expected_comment p) (readlines raw)") auto
  with assms(2) have fx by simp
  with fix_file_header_readable [OF assms(1) c] assms(3)
  show "fst (fix_file_header p w) = True"
    and "files (snd (fix_file_header p w)) = (files w)(p := file_after f (Inr raw))"
    and "write_error (snd (fix_file_header p w)) = write_error w"
    by simp_all
qed

lemma triple_from_flag: "fst (snd x) = b \<Longrightarrow> x = (fst x, b, snd (snd x))"
  by (cases x) auto

subsection \<open>What processing does to a file\<close>



lemma writelines_drop1:
  "lines0 \<noteq> [] \<Longrightarrow> writelines lines0 = lines0 ! 0 @ writelines (drop 1 lines0)"
  by (cases lines0) (simp_all add: writelines_def)










subsection \<open>When reading or writing fails\<close>

text \<open>
  C4. When reading the file raises, \<^verbatim>\<open>fix_file_header\<close> returns a value (the exception
  goes no further): it returns \<open>True\<close>, the value of a valid file, having attempted
  one \<^verbatim>\<open>open\<close> and printed the diagnostic; no file is changed. The loop of
  \<^verbatim>\<open>main\<close> goes on with the remaining files and with \<^verbatim>\<open>all_valid\<close> as it was, and a
  run on that file alone exits with 0.
\<close>

theorem read_error_reported_as_valid:
  assumes "files w p = Inl e"
  shows "fix_file_header p w =
           (True, w\<lparr>log := log w @ [Open_r p, Printed (error_msg ''reading'' p e)]\<rparr>)
         \<and> check_files (p # rest) all_valid w =
             (if skipped p then check_files rest all_valid w
              else check_files rest all_valid
                     (w\<lparr>log := log w @ [Open_r p, Printed (error_msg ''reading'' p e)]\<rparr>))
         \<and> fst (main [prog, p] w) = 0"
  using fix_file_header_unreadable [OF assms]
  by (simp add: main_def)

theorem read_error_reported_as_valid_witness:
  "files (world_of [] []) (py ''src/bot.js'') = Inl (py ''[Errno 2] No such file or directory'')
   \<and> fix_file_header (py ''src/bot.js'') (world_of [] []) =
         (True, (world_of [] [])\<lparr>log := [Open_r (py ''src/bot.js''),
            Printed (error_msg ''reading'' (py ''src/bot.js'')
                       (py ''[Errno 2] No such file or directory''))]\<rparr>)
   \<and> fst (main [py ''hook'', py ''src/bot.js''] (world_of [] [])) = 0"
proof -
  have h: "files (world_of [] []) (py ''src/bot.js'') = Inl (py ''[Errno 2] No such file or directory'')"
    by (simp add: world_of_def)
  have l: "log (world_of [] []) = []" by (simp add: world_of_def)
  show ?thesis
    using read_error_reported_as_valid [OF h, of "[]" True "py ''hook''"] h l by simp
qed

text \<open>
  C3, as the script has it. When a fix was decided and the write-back raises,
  \<^verbatim>\<open>fix_file_header\<close> prints the diagnostic and returns \<open>True\<close>, the value it returns
  for a valid file (not \<open>False\<close>, the value of a fixed file), and a run on that file
  alone exits with 0. The file is as the failed write leaves it: as it was when
  \<^verbatim>\<open>open\<close> raised, truncated or cut short when the write raised after it.
\<close>

theorem write_error_reported_as_valid:
  assumes "files w p = Inr raw"
    and "check_and_fix p (expected_comment p) (readlines raw) = (ls, True, out)"
    and "write_error w p = Some f"
  shows "fix_file_header p w =
           (True, w\<lparr>files := (files w)(p := file_after f (Inr raw)),
                    log := log w @ [Open_r p] @ map Printed out @
                          [Open_w p, Printed (error_msg ''writing'' p (failure_message f))]\<rparr>)
         \<and> fst (main [prog, p] w) = 0"
  using fix_file_header_readable [OF assms(1,2)] assms(3)
  by (simp add: main_def)

text \<open>A file of one line that cannot be opened for writing, and the same file on a full disk.\<close>

theorem write_error_reported_as_valid_witness:
  "files (world_of [(py ''src/bot.js'', py ''x = 1'' @ nl)] [py ''src/bot.js'']) (py ''src/bot.js'')
     = Inr (py ''x = 1'' @ nl)
   \<and> fst (snd (check_and_fix (py ''src/bot.js'') (expected_comment (py ''src/bot.js''))
                 (readlines (py ''x = 1'' @ nl))))
   \<and> write_error (world_of [(py ''src/bot.js'', py ''x = 1'' @ nl)] [py ''src/bot.js''])
        (py ''src/bot.js'') = Some (Open_fails (py ''[Errno 13] Permission denied''))
   \<and> fst (fix_file_header (py ''src/bot.js'')
            (world_of [(py ''src/bot.js'', py ''x = 1'' @ nl)] [py ''src/bot.js'']))
   \<and> files (snd (fix_file_header (py ''src/bot.js'')
            (world_of [(py ''src/bot.js'', py ''x = 1'' @ nl)] [py ''src/bot.js''])))
        (py ''src/bot.js'') = Inr (py ''x = 1'' @ nl)
   \<and> write_error (disk_full (world_of [(py ''src/bot.js'', py ''x = 1'' @ nl)] []))
        (py ''src/bot.js'')
       = Some (Write_fails (py ''[Errno 28] No space left on device'') (Inr []))
   \<and> fst (fix_file_header (py ''src/bot.js'')
            (disk_full (world_of [(py ''src/bot.js'', py ''x = 1'' @ nl)] [])))
   \<and> files (snd (fix_file_header (py ''src/bot.js'')
            (disk_full (world_of [(py ''src/bot.js'', py ''x = 1'' @ nl)] []))))
        (py ''src/bot.js'') = Inr []
   \<and> fst (main [py ''hook'', py ''src/bot.js'']
            (disk_full (world_of [(py ''src/bot.js'', py ''x = 1'' @ nl)] []))) = 0"
proof -
  let ?p = "py ''src/bot.js''"
  let ?raw = "py ''x = 1'' @ nl"
  let ?w = "world_of [(?p, ?raw)] [?p]"
  let ?v = "disk_full (world_of [(?p, ?raw)] [])"
  let ?c = "check_and_fix ?p (expected_comment ?p) (readlines ?raw)"
  have r: "readlines ?raw = [py ''x = 1'' @ nl]" by (simp add: readlines_def py_def nl_def)
  have n: "fst (snd ?c)" unfolding r by (simp add: eval_defs)
  then have c: "?c = (fst ?c, True, snd (snd ?c))" by (intro triple_from_flag) simp
  have h1: "files ?w ?p = Inr ?raw" by (simp add: world_of_def)
  have h3: "write_error ?w ?p = Some (Open_fails (py ''[Errno 13] Permission denied''))"
    by (simp add: world_of_def)
  have k1: "files ?v ?p = Inr ?raw" by (simp add: world_of_def disk_full_def)
  have k3: "write_error ?v ?p = Some (Write_fails (py ''[Errno 28] No space left on device'') (Inr []))"
    by (simp add: disk_full_def)
  from write_error_reported_as_valid [OF h1 c h3]
  have a: "fst (fix_file_header ?p ?w)" and b: "files (snd (fix_file_header ?p ?w)) ?p = Inr ?raw"
    by simp_all
  from write_error_reported_as_valid [OF k1 c k3, of "py ''hook''"]
  have a': "fst (fix_file_header ?p ?v)" and b': "files (snd (fix_file_header ?p ?v)) ?p = Inr []"
    and m: "fst (main [py ''hook'', ?p] ?v) = 0"
    by simp_all
  from h1 n h3 a b k3 a' b' m show ?thesis by (intro conjI)
qed

text \<open>
  C3 as stated fails: an empty file that cannot be written needs a fix, and the call
  does not return the outcome Fixed.
\<close>

theorem write_error_not_fixed_counterexample:
  "files (world_of [(py ''src/bot.js'', [])] [py ''src/bot.js'']) (py ''src/bot.js'') = Inr []
   \<and> fst (snd (check_and_fix (py ''src/bot.js'') (expected_comment (py ''src/bot.js''))
                 (readlines [])))
   \<and> write_error (world_of [(py ''src/bot.js'', [])] [py ''src/bot.js'']) (py ''src/bot.js'')
        = Some (Open_fails (py ''[Errno 13] Permission denied''))
   \<and> fst (fix_file_header (py ''src/bot.js'')
            (world_of [(py ''src/bot.js'', [])] [py ''src/bot.js''])) \<noteq> False
   \<and> fst (main [py ''hook'', py ''src/bot.js'']
            (world_of [(py ''src/bot.js'', [])] [py ''src/bot.js''])) = 0"
  by (simp add: world_of_def check_and_fix_def readlines_def fix_file_header_def
        open_readlines_def open_writelines_def main_def skipped_def py_def Let_def print_def)

subsection \<open>What is written\<close>

text \<open>
  C2, as the script has it. Take a path that holds no line feed or carriage return, and a
  file other than one unterminated line that holds the expected header (the file of C6).
  When \<^verbatim>\<open>fix_file_header\<close> has written the file back (it returned \<open>False\<close>), the file
  has two lines or more. Its first line is exactly the expected header and a line feed,
  or it is the first line read, which right-trimmed is the expected header. Its second
  line is exactly a line feed, or it is the second line read, which right-trimmed is
  empty.
\<close>

theorem written_lines_header:
  assumes "files w p = Inr raw" and "fix_file_header p w = (False, w1)"
    and "10 \<notin> set p" and "13 \<notin> set p"
    and "\<not> (\<exists>l. readlines raw = [l] \<and> rstrip l = expected_comment p \<and> last l \<noteq> 10)"
  shows "\<exists>text. files w1 p = Inr text
    \<and> 2 \<le> length (readlines text)
    \<and> (readlines text ! 0 = expected_comment p @ nl
        \<or> readlines raw \<noteq> [] \<and> readlines text ! 0 = readlines raw ! 0
          \<and> rstrip (readlines raw ! 0) = expected_comment p)
    \<and> (readlines text ! 1 = nl
        \<or> 2 \<le> length (readlines raw) \<and> readlines text ! 1 = readlines raw ! 1
          \<and> rstrip (readlines raw ! 1) = [])"
proof -
  let ?e = "expected_comment p"
  obtain ls fx out where c: "check_and_fix p ?e (readlines raw) = (ls, fx, out)"
    by (cases "check_and_fix p ?e (readlines raw)") auto
  then have ls: "ls = fst (check_and_fix p ?e (readlines raw))" by simp
  from fix_file_header_readable [OF assms(1) c] assms(2)
  have f: "files w1 p = Inr (writelines ls)"
    by (auto split: if_splits option.splits)
  have "line_list ls"
    unfolding ls
    by (rule check_and_fix_line_list
          [OF readlines_is_line_list terminated_expected [OF assms(3,4)] assms(5)])
  then have r: "readlines (writelines ls) = ls" by (rule readlines_writelines)
  have 2: "2 \<le> length ls" unfolding ls by (rule check_and_fix_length)
  from first_two_lines [of p ?e "readlines raw"] f r 2 show ?thesis
    unfolding ls [symmetric] by auto
qed

theorem written_lines_header_witness:
  "files (world_of [(py ''src/bot.js'', py ''// wrong/path.js'' @ nl @ nl @ py ''x = 1'' @ nl)] [])
      (py ''src/bot.js'') = Inr (py ''// wrong/path.js'' @ nl @ nl @ py ''x = 1'' @ nl)
   \<and> fix_file_header (py ''src/bot.js'')
        (world_of [(py ''src/bot.js'', py ''// wrong/path.js'' @ nl @ nl @ py ''x = 1'' @ nl)] [])
       = (False, snd (fix_file_header (py ''src/bot.js'')
        (world_of [(py ''src/bot.js'', py ''// wrong/path.js'' @ nl @ nl @ py ''x = 1'' @ nl)] [])))
   \<and> 10 \<notin> set (py ''src/bot.js'') \<and> 13 \<notin> set (py ''src/bot.js'')
   \<and> (\<exists>text. files (snd (fix_file_header (py ''src/bot.js'')
          (world_of [(py ''src/bot.js'', py ''// wrong/path.js'' @ nl @ nl @ py ''x = 1'' @ nl)] [])))
          (py ''src/bot.js'') = Inr text
        \<and> 2 \<le> length (readlines text)
        \<and> readlines text ! 0 = expected_comment (py ''src/bot.js'') @ nl
        \<and> readlines text ! 1 = nl)"
proof -
  let ?p = "py ''src/bot.js''"
  let ?raw = "py ''// wrong/path.js'' @ nl @ nl @ py ''x = 1'' @ nl"
  let ?w = "world_of [(?p, ?raw)] []"
  have h1: "files ?w ?p = Inr ?raw" by (simp add: world_of_def)
  have we: "write_error ?w ?p = None" by (simp add: world_of_def)
  have r: "readlines ?raw = [py ''// wrong/path.js'' @ nl, nl, py ''x = 1'' @ nl]"
    by (simp add: readlines_def py_def nl_def)
  have e: "expected_comment ?p = py ''// src/bot.js''"
    by (simp add: expected_comment_def replace_def py_def)
  have n: "fst (snd (check_and_fix ?p (expected_comment ?p) (readlines ?raw)))"
    unfolding r by (simp add: eval_defs)
  have f: "fst (fix_file_header ?p ?w) = False"
    by (rule fix_file_header_written(1) [OF h1 n we])
  then have h2: "fix_file_header ?p ?w = (False, snd (fix_file_header ?p ?w))"
    by (rule pair_from_fst)
  have h3: "10 \<notin> set ?p" and h4: "13 \<notin> set ?p" by (simp_all add: py_def)
  have h5: "\<not> (\<exists>l. readlines ?raw = [l] \<and> rstrip l = expected_comment ?p \<and> last l \<noteq> 10)"
    unfolding r by simp
  have m: "rstrip (readlines ?raw ! 0) \<noteq> expected_comment ?p"
    unfolding r e by (simp add: rstrip_append_nl) (simp add: rstrip_def py_def isspace_def)
  have l1: "readlines ?raw ! 1 = nl" unfolding r by simp
  from written_lines_header [OF h1 h2 h3 h4 h5] m l1
  have "\<exists>text. files (snd (fix_file_header ?p ?w)) ?p = Inr text
        \<and> 2 \<le> length (readlines text)
        \<and> readlines text ! 0 = expected_comment ?p @ nl
        \<and> readlines text ! 1 = nl"
    by auto
  with h1 h2 h3 h4 show ?thesis by (intro conjI)
qed

text \<open>
  C2 as stated fails in three ways. The script takes a second line of whitespace for
  blank and keeps it, so the second line of the file written is not empty. It takes a
  first line that is the expected header followed by whitespace for right and keeps it,
  so the first line of the file written is not exactly the expected header. And for a
  path that holds a line feed the header written is two lines of the file, neither of
  them the expected header.
\<close>

theorem whitespace_second_line_counterexample:
  "fst (fix_file_header (py ''src/bot.js'')
        (world_of [(py ''src/bot.js'', py ''// wrong/path.js'' @ nl @ py ''  '' @ nl @ py ''x = 1'' @ nl)] []))
       = False
   \<and> files (snd (fix_file_header (py ''src/bot.js'')
        (world_of [(py ''src/bot.js'', py ''// wrong/path.js'' @ nl @ py ''  '' @ nl @ py ''x = 1'' @ nl)] [])))
      (py ''src/bot.js'')
       = Inr (py ''// src/bot.js'' @ nl @ py ''  '' @ nl @ py ''x = 1'' @ nl)
   \<and> readlines (py ''// src/bot.js'' @ nl @ py ''  '' @ nl @ py ''x = 1'' @ nl) ! 1
       = py ''  '' @ nl
   \<and> py ''  '' @ nl \<noteq> nl
   \<and> fst (fix_file_header (py ''src/bot.js'')
        (world_of [(py ''src/bot.js'', py ''// src/bot.js  '' @ nl @ py ''x = 1'' @ nl)] []))
       = False
   \<and> files (snd (fix_file_header (py ''src/bot.js'')
        (world_of [(py ''src/bot.js'', py ''// src/bot.js  '' @ nl @ py ''x = 1'' @ nl)] [])))
      (py ''src/bot.js'')
       = Inr (py ''// src/bot.js  '' @ nl @ nl @ py ''x = 1'' @ nl)
   \<and> readlines (py ''// src/bot.js  '' @ nl @ nl @ py ''x = 1'' @ nl) ! 0
       = py ''// src/bot.js  '' @ nl
   \<and> py ''// src/bot.js  '' @ nl \<noteq> expected_comment (py ''src/bot.js'') @ nl
   \<and> fst (fix_file_header (py ''a'' @ nl @ py ''b.js'')
        (world_of [(py ''a'' @ nl @ py ''b.js'', [])] [])) = False
   \<and> files (snd (fix_file_header (py ''a'' @ nl @ py ''b.js'')
        (world_of [(py ''a'' @ nl @ py ''b.js'', [])] []))) (py ''a'' @ nl @ py ''b.js'')
       = Inr (py ''// a'' @ nl @ py ''b.js'' @ nl @ nl)
   \<and> readlines (py ''// a'' @ nl @ py ''b.js'' @ nl @ nl) ! 0 = py ''// a'' @ nl
   \<and> py ''// a'' @ nl \<noteq> expected_comment (py ''a'' @ nl @ py ''b.js'') @ nl"
proof -
  let ?p = "py ''src/bot.js''"
  let ?raw = "py ''// wrong/path.js'' @ nl @ py ''  '' @ nl @ py ''x = 1'' @ nl"
  let ?w = "world_of [(?p, ?raw)] []"
  let ?raw' = "py ''// src/bot.js  '' @ nl @ py ''x = 1'' @ nl"
  let ?w' = "world_of [(?p, ?raw')] []"
  have h1: "files ?w ?p = Inr ?raw" by (simp add: world_of_def)
  have we: "write_error ?w ?p = None" by (simp add: world_of_def)
  have r: "readlines ?raw = [py ''// wrong/path.js'' @ nl, py ''  '' @ nl, py ''x = 1'' @ nl]"
    by (simp add: readlines_def py_def nl_def)
  have c: "fst (check_and_fix ?p (expected_comment ?p) (readlines ?raw))
             = [py ''// src/bot.js'' @ nl, py ''  '' @ nl, py ''x = 1'' @ nl]"
    unfolding r by (simp add: eval_defs)
  have n: "fst (snd (check_and_fix ?p (expected_comment ?p) (readlines ?raw)))"
    unfolding r by (simp add: eval_defs)
  have f: "fst (fix_file_header ?p ?w) = False"
    by (rule fix_file_header_written(1) [OF h1 n we])
  have g: "files (snd (fix_file_header ?p ?w)) ?p
             = Inr (py ''// src/bot.js'' @ nl @ py ''  '' @ nl @ py ''x = 1'' @ nl)"
    by (simp only: fix_file_header_written(2) [OF h1 n we] c fun_upd_same)
       (simp add: writelines_def)
  have l: "readlines (py ''// src/bot.js'' @ nl @ py ''  '' @ nl @ py ''x = 1'' @ nl) ! 1
             = py ''  '' @ nl"
    by (simp add: readlines_def py_def nl_def)
  have d: "py ''  '' @ nl \<noteq> nl" by (simp add: py_def nl_def)
  have h1': "files ?w' ?p = Inr ?raw'" by (simp add: world_of_def)
  have we': "write_error ?w' ?p = None" by (simp add: world_of_def)
  have r': "readlines ?raw' = [py ''// src/bot.js  '' @ nl, py ''x = 1'' @ nl]"
    by (simp add: readlines_def py_def nl_def)
  have c': "fst (check_and_fix ?p (expected_comment ?p) (readlines ?raw'))
             = [py ''// src/bot.js  '' @ nl, nl, py ''x = 1'' @ nl]"
    unfolding r' by (simp add: eval_defs)
  have n': "fst (snd (check_and_fix ?p (expected_comment ?p) (readlines ?raw')))"
    unfolding r' by (simp add: eval_defs)
  have f': "fst (fix_file_header ?p ?w') = False"
    by (rule fix_file_header_written(1) [OF h1' n' we'])
  have g': "files (snd (fix_file_header ?p ?w')) ?p
             = Inr (py ''// src/bot.js  '' @ nl @ nl @ py ''x = 1'' @ nl)"
    by (simp only: fix_file_header_written(2) [OF h1' n' we'] c' fun_upd_same)
       (simp add: writelines_def)
  have l': "readlines (py ''// src/bot.js  '' @ nl @ nl @ py ''x = 1'' @ nl) ! 0
             = py ''// src/bot.js  '' @ nl"
    by (simp add: readlines_def py_def nl_def)
  have d': "py ''// src/bot.js  '' @ nl \<noteq> expected_comment ?p @ nl"
    by (simp add: expected_comment_def replace_def py_def nl_def)
  let ?q = "py ''a'' @ nl @ py ''b.js''"
  let ?v = "world_of [(?q, [])] []"
  have k1: "files ?v ?q = Inr []" by (simp add: world_of_def)
  have kw: "write_error ?v ?q = None" by (simp add: world_of_def)
  have kr: "readlines [] = []" by (simp add: readlines_def)
  have kc: "fst (check_and_fix ?q (expected_comment ?q) (readlines []))
             = [py ''// a'' @ nl @ py ''b.js'' @ nl, nl]"
    unfolding kr by (simp add: eval_defs)
  have kn: "fst (snd (check_and_fix ?q (expected_comment ?q) (readlines [])))"
    unfolding kr by (simp add: eval_defs)
  have kf: "fst (fix_file_header ?q ?v) = False"
    by (rule fix_file_header_written(1) [OF k1 kn kw])
  have kg: "files (snd (fix_file_header ?q ?v)) ?q = Inr (py ''// a'' @ nl @ py ''b.js'' @ nl @ nl)"
    by (simp only: fix_file_header_written(2) [OF k1 kn kw] kc fun_upd_same)
       (simp add: writelines_def)
  have kl: "readlines (py ''// a'' @ nl @ py ''b.js'' @ nl @ nl) ! 0 = py ''// a'' @ nl"
    by (simp add: readlines_def py_def nl_def)
  have kd: "py ''// a'' @ nl \<noteq> expected_comment ?q @ nl"
    by (simp add: expected_comment_def replace_def py_def nl_def)
  from f g l d f' g' l' d' kf kg kl kd show ?thesis by (intro conjI)
qed

subsection \<open>Running the script twice\<close>

text \<open>
  A file whose first line, right-trimmed, is the expected header and whose second line is
  blank is left alone: the lines are not changed, nothing is printed or written, and the
  call returns \<open>True\<close>.
\<close>

lemma valid_lines_unchanged:
  assumes "2 \<le> length lines0" and "rstrip (lines0 ! 0) = expected_comment p"
    and "rstrip (lines0 ! 1) = []"
  shows "check_and_fix p (expected_comment p) lines0 = (lines0, False, [])"
proof -
  have "startswith (rstrip (lines0 ! 0)) (py ''//'')"
    using assms(2) expected_startswith by simp
  with assms show ?thesis
    by (cases lines0) (auto simp add: check_and_fix_def Let_def)
qed

lemma valid_file_untouched:
  assumes "files w p = Inr raw" and "2 \<le> length (readlines raw)"
    and "rstrip (readlines raw ! 0) = expected_comment p"
    and "rstrip (readlines raw ! 1) = []"
  shows "fix_file_header p w = (True, w\<lparr>log := log w @ [Open_r p]\<rparr>)"
  using fix_file_header_readable [OF assms(1) valid_lines_unchanged [OF assms(2,3,4)]]
  by simp

text \<open>
  On the list of lines the phase is idempotent for a path that does not end in
  whitespace: run on its own result, it changes nothing.
\<close>

lemma check_and_fix_first: "rstrip (fst (check_and_fix p e lines0) ! 0) = rstrip e"
  using first_two_lines [of p e lines0] rstrip_idem [of "lines0 ! 0"]
  by (auto simp add: rstrip_append_nl)

lemma check_and_fix_second: "rstrip (fst (check_and_fix p e lines0) ! 1) = []"
  using first_two_lines [of p e lines0] by (auto simp add: rstrip_nl)

lemma check_and_fix_twice:
  assumes "rstrip (expected_comment p) = expected_comment p"
  shows "check_and_fix p (expected_comment p) (fst (check_and_fix p (expected_comment p) lines0))
           = (fst (check_and_fix p (expected_comment p) lines0), False, [])"
  using assms check_and_fix_first [of p "expected_comment p" lines0]
  by (intro valid_lines_unchanged check_and_fix_length check_and_fix_second) simp

text \<open>
  A write-back that fails leaves the file as a second failure of the same kind leaves
  it: a call on such a file returns \<open>True\<close> and changes no file.
\<close>

lemma file_after_idem: "file_after f (file_after f x) = file_after f x"
  by (cases f) simp_all

lemma failing_write_stable:
  assumes "write_error w p = Some f" and "file_after f (files w p) = files w p"
  shows "fst (fix_file_header p w) = True" and "files (snd (fix_file_header p w)) = files w"
proof -
  have "fst (fix_file_header p w) = True \<and> files (snd (fix_file_header p w)) = files w"
  proof (cases "files w p")
    case (Inl e)
    then show ?thesis by (simp add: fix_file_header_unreadable)
  next
    case (Inr raw)
    obtain ls fx out where c: "check_and_fix p (expected_comment p) (readlines raw) = (ls, fx, out)"
      by (cases "check_and_fix p (expected_comment p) (readlines raw)") auto
    have "(files w)(p := file_after f (Inr raw)) = files w"
      using assms(2) Inr by (metis fun_upd_triv)
    with fix_file_header_readable [OF Inr c] assms(1) show ?thesis by simp
  qed
  then show "fst (fix_file_header p w) = True" and "files (snd (fix_file_header p w)) = files w"
    by simp_all
qed

text \<open>
  The second of two runs on a readable file returns \<open>True\<close> and leaves every file as the
  first run left it, when the path does not end in whitespace and holds no line feed or
  carriage return, except for a file that is one unterminated line holding the expected
  header.
\<close>

lemma second_run_valid:
  assumes "files w p = Inr raw"
    and "rstrip (expected_comment p) = expected_comment p"
    and "10 \<notin> set p" and "13 \<notin> set p"
    and "\<not> (\<exists>l. readlines raw = [l] \<and> rstrip l = expected_comment p \<and> last l \<noteq> 10)"
  shows "fst (fix_file_header p (snd (fix_file_header p w))) = True"
    and "files (snd (fix_file_header p (snd (fix_file_header p w)))) = files (snd (fix_file_header p w))"
proof -
  let ?e = "expected_comment p"
  let ?w1 = "snd (fix_file_header p w)"
  obtain ls fx out where c: "check_and_fix p ?e (readlines raw) = (ls, fx, out)"
    by (cases "check_and_fix p ?e (readlines raw)") auto
  have ll: "line_list ls"
    using check_and_fix_line_list [OF readlines_is_line_list terminated_expected [OF assms(3,4)] assms(5), of p] c
    by simp
  have again: "check_and_fix p ?e ls = (ls, False, [])"
    using check_and_fix_twice [OF assms(2), of "readlines raw"] c by simp
  have "fst (fix_file_header p ?w1) = True
      \<and> files (snd (fix_file_header p ?w1)) = files ?w1"
  proof (cases fx)
    case False
    with fix_file_header_readable [OF assms(1) c]
    have w1: "files ?w1 = files w" by simp
    with assms(1) have r1: "files ?w1 p = Inr raw" by simp
    from c False have n: "\<not> fst (snd (check_and_fix p ?e (readlines raw)))" by simp
    from fix_file_header_not_written(1,2) [OF r1 n] show ?thesis by simp
  next
    case True
    note fx = True
    show ?thesis
    proof (cases "write_error w p")
      case None
      with fx fix_file_header_readable [OF assms(1) c]
      have "files ?w1 p = Inr (writelines ls)" by simp
      moreover have "\<not> fst (snd (check_and_fix p ?e (readlines (writelines ls))))"
        using again readlines_writelines [OF ll] by simp
      ultimately show ?thesis using fix_file_header_not_written(1,2) by blast
    next
      case (Some f)
      from c fx have n: "fst (snd (check_and_fix p ?e (readlines raw)))" by simp
      from fix_file_header_write_fails(2,3) [OF assms(1) n Some]
      have e1: "write_error ?w1 p = Some f" and s1: "file_after f (files ?w1 p) = files ?w1 p"
        using Some by (simp_all add: file_after_idem)
      from failing_write_stable [OF e1 s1] show ?thesis by simp
    qed
  qed
  then show "fst (fix_file_header p (snd (fix_file_header p w))) = True"
    and "files (snd (fix_file_header p (snd (fix_file_header p w)))) = files (snd (fix_file_header p w))"
    by simp_all
qed

text \<open>
  C6 fails on the script. A file that holds the expected header and no line feed
  (\<^verbatim>\<open>// src/bot.js\<close> at the end of the file) is read as one line; the script appends
  \<^verbatim>\<open>'\n'\<close> as a second list element, which only ends the first line in the file
  written. The second run reads one line again, reports the file fixed again and writes
  a different text. (By \<open>second_run_valid\<close>, on every other readable file the second
  run returns \<open>True\<close> and leaves the files as they are, for a path that does not end in
  whitespace and holds no line break.)
\<close>

theorem unterminated_header_fixed_twice:
  "fst (fix_file_header (py ''src/bot.js'') (world_of [(py ''src/bot.js'', py ''// src/bot.js'')] []))
     = False
   \<and> files (snd (fix_file_header (py ''src/bot.js'')
                   (world_of [(py ''src/bot.js'', py ''// src/bot.js'')] [])))
        (py ''src/bot.js'') = Inr (py ''// src/bot.js'' @ nl)
   \<and> fst (fix_file_header (py ''src/bot.js'')
          (snd (fix_file_header (py ''src/bot.js'')
                   (world_of [(py ''src/bot.js'', py ''// src/bot.js'')] [])))) = False
   \<and> files (snd (fix_file_header (py ''src/bot.js'')
          (snd (fix_file_header (py ''src/bot.js'')
                   (world_of [(py ''src/bot.js'', py ''// src/bot.js'')] [])))))
        (py ''src/bot.js'') = Inr (py ''// src/bot.js'' @ nl @ nl)"
proof -
  let ?p = "py ''src/bot.js''"
  let ?raw = "py ''// src/bot.js''"
  let ?w = "world_of [(?p, ?raw)] []"
  let ?w1 = "snd (fix_file_header ?p ?w)"
  have e: "expected_comment ?p = py ''// src/bot.js''"
    by (simp add: expected_comment_def replace_def py_def)
  have h1: "files ?w ?p = Inr ?raw" by (simp add: world_of_def)
  have we: "write_error ?w ?p = None" by (simp add: world_of_def)
  have r: "readlines ?raw = [py ''// src/bot.js'']"
    by (simp add: readlines_def py_def nl_def)
  have c: "fst (check_and_fix ?p (expected_comment ?p) (readlines ?raw)) = [py ''// src/bot.js'', nl]"
    unfolding r by (simp add: eval_defs)
  have n: "fst (snd (check_and_fix ?p (expected_comment ?p) (readlines ?raw)))"
    unfolding r by (simp add: eval_defs)
  have f1: "fst (fix_file_header ?p ?w) = False"
    by (rule fix_file_header_written(1) [OF h1 n we])
  have g1: "files ?w1 ?p = Inr (py ''// src/bot.js'' @ nl)"
    by (simp only: fix_file_header_written(2) [OF h1 n we] c fun_upd_same)
       (simp add: writelines_def)
  have we1: "write_error ?w1 ?p = None"
    by (simp only: fix_file_header_written(3) [OF h1 n we] we)
  have r1: "readlines (py ''// src/bot.js'' @ nl) = [py ''// src/bot.js'' @ nl]"
    by (simp add: readlines_def py_def nl_def)
  have c1: "fst (check_and_fix ?p (expected_comment ?p) (readlines (py ''// src/bot.js'' @ nl)))
              = [py ''// src/bot.js'' @ nl, nl]"
    unfolding r1 by (simp add: eval_defs)
  have n1: "fst (snd (check_and_fix ?p (expected_comment ?p) (readlines (py ''// src/bot.js'' @ nl))))"
    unfolding r1 by (simp add: eval_defs)
  have f2: "fst (fix_file_header ?p ?w1) = False"
    by (rule fix_file_header_written(1) [OF g1 n1 we1])
  have g2: "files (snd (fix_file_header ?p ?w1)) ?p = Inr (py ''// src/bot.js'' @ nl @ nl)"
    by (simp only: fix_file_header_written(2) [OF g1 n1 we1] c1 fun_upd_same)
       (simp add: writelines_def)
  from f1 g1 f2 g2 show ?thesis by (intro conjI)
qed

subsection \<open>The exit code\<close>

lemma check_files_outcomes:
  "fst (check_files ps all_valid w) = (all_valid \<and> False \<notin> set (outcomes ps w))"
proof (induction ps arbitrary: all_valid w)
  case Nil
  then show ?case by simp
next
  case (Cons p ps)
  show ?case
  proof (cases "skipped p")
    case True
    with Cons show ?thesis by simp
  next
    case False
    obtain ok w1 where f: "fix_file_header p w = (ok, w1)" by (cases "fix_file_header p w")
    with False Cons [of "if \<not> ok then False else all_valid" w1] show ?thesis
      by (cases ok) auto
  qed
qed

text \<open>
  C5. \<^verbatim>\<open>main\<close> returns 1 exactly when it was given a file argument and
  \<^verbatim>\<open>fix_file_header\<close> returned \<open>False\<close> (fixed) for one of the files it processed;
  otherwise it returns 0. With no file argument it returns 0 at once: it has printed
  \<^verbatim>\<open>No files to check\<close> and done nothing else.
\<close>

theorem exit_code_by_outcomes:
  "fst (main argv w) = (if 2 \<le> length argv \<and> False \<in> set (outcomes (drop 1 argv) w) then 1 else 0)
   \<and> main [] w = (0, print (py ''No files to check'') w)
   \<and> main [prog] w = (0, print (py ''No files to check'') w)"
proof -
  have "fst (main argv w) = (if 2 \<le> length argv \<and> False \<in> set (outcomes (drop 1 argv) w) then 1 else 0)"
  proof (cases "length argv < 2")
    case True
    then show ?thesis by (simp add: main_def)
  next
    case False
    obtain av w1 where c: "check_files (drop 1 argv) True w = (av, w1)"
      by (cases "check_files (drop 1 argv) True w")
    with check_files_outcomes [of "drop 1 argv" True w]
    have "av = (False \<notin> set (outcomes (drop 1 argv) w))" by simp
    with False c show ?thesis by (simp add: main_def)
  qed
  then show ?thesis by (simp add: main_def)
qed

theorem exit_code_by_outcomes_witness:
  "outcomes [py ''src/bot.js''] (world_of [(py ''src/bot.js'', py ''x = 1'' @ nl)] []) = [False]
   \<and> fst (main [py ''hook'', py ''src/bot.js''] (world_of [(py ''src/bot.js'', py ''x = 1'' @ nl)] [])) = 1
   \<and> outcomes [py ''src/bot.js'']
        (world_of [(py ''src/bot.js'', py ''// src/bot.js'' @ nl @ nl @ py ''x = 1'' @ nl)] []) = [True]
   \<and> fst (main [py ''hook'', py ''src/bot.js'']
        (world_of [(py ''src/bot.js'', py ''// src/bot.js'' @ nl @ nl @ py ''x = 1'' @ nl)] [])) = 0
   \<and> main [py ''hook''] (world_of [] []) = (0, print (py ''No files to check'') (world_of [] []))"
proof -
  let ?p = "py ''src/bot.js''"
  let ?raw = "py ''x = 1'' @ nl"
  let ?w = "world_of [(?p, ?raw)] []"
  let ?raw' = "py ''// src/bot.js'' @ nl @ nl @ py ''x = 1'' @ nl"
  let ?w' = "world_of [(?p, ?raw')] []"
  have ns: "\<not> skipped ?p" by (simp add: skipped_def py_def)
  have h1: "files ?w ?p = Inr ?raw" by (simp add: world_of_def)
  have we: "write_error ?w ?p = None" by (simp add: world_of_def)
  have r: "readlines ?raw = [py ''x = 1'' @ nl]" by (simp add: readlines_def py_def nl_def)
  have n: "fst (snd (check_and_fix ?p (expected_comment ?p) (readlines ?raw)))"
    unfolding r by (simp add: eval_defs)
  have f: "fst (fix_file_header ?p ?w) = False"
    by (rule fix_file_header_written(1) [OF h1 n we])
  have o: "outcomes [?p] ?w = [False]" using ns f by simp
  have h1': "files ?w' ?p = Inr ?raw'" by (simp add: world_of_def)
  have r': "readlines ?raw' = [py ''// src/bot.js'' @ nl, nl, py ''x = 1'' @ nl]"
    by (simp add: readlines_def py_def nl_def)
  have n': "\<not> fst (snd (check_and_fix ?p (expected_comment ?p) (readlines ?raw')))"
    unfolding r' by (simp add: eval_defs)
  have f': "fst (fix_file_header ?p ?w') = True"
    by (rule fix_file_header_not_written(1) [OF h1' n'])
  have o': "outcomes [?p] ?w' = [True]" using ns f' by simp
  show ?thesis
    using exit_code_by_outcomes [of "[py ''hook'', ?p]" ?w "py ''hook''"]
      exit_code_by_outcomes [of "[py ''hook'', ?p]" ?w' "py ''hook''"]
      exit_code_by_outcomes [of "[py ''hook'']" "world_of [] []" "py ''hook''"] o o'
    by simp
qed

subsection \<open>Skipped paths\<close>

text \<open>
  \<open>contains\<close> is the substring test: the path is skipped wherever the substring
  stands, whether or not it is a whole directory name.
\<close>

lemma contains_iff: "contains s sub \<longleftrightarrow> (\<exists>a b. s = a @ sub @ b)"
proof (induction s)
  case Nil
  then show ?case by simp
next
  case (Cons c s)
  show ?case
  proof
    assume "contains (c # s) sub"
    then consider "prefix sub (c # s)" | "contains s sub" by auto
    then show "\<exists>a b. c # s = a @ sub @ b"
    proof cases
      case 1
      then obtain b where "c # s = sub @ b" by (auto simp: prefix_def)
      then have "c # s = [] @ sub @ b" by simp
      then show ?thesis by blast
    next
      case 2
      with Cons obtain a b where "s = a @ sub @ b" by blast
      then have "c # s = (c # a) @ sub @ b" by simp
      then show ?thesis by blast
    qed
  next
    assume "\<exists>a b. c # s = a @ sub @ b"
    then obtain a b where ab: "c # s = a @ sub @ b" by blast
    show "contains (c # s) sub"
    proof (cases a)
      case Nil
      with ab have "prefix sub (c # s)" by (simp add: prefix_def)
      then show ?thesis by simp
    next
      case (Cons x a')
      with ab have "s = a' @ sub @ b" by simp
      with Cons.IH show ?thesis by auto
    qed
  qed
qed

lemma skipped_examples:
  "skipped (py ''.github/workflows/ci.yml'') \<and> skipped (py ''budget.gitlog'')
   \<and> skipped (py ''node_modules/left-pad/index.js'') \<and> \<not> skipped (py ''widget.js'')"
  by (simp add: skipped_def py_def)

lemma check_files_skip:
  "skipped p \<Longrightarrow>
   check_files (before @ p # after) all_valid w = check_files (before @ after) all_valid w"
  by (induction before arbitrary: all_valid w) (simp_all split: prod.splits)

text \<open>
  C10. A path that contains \<^verbatim>\<open>node_modules\<close> or \<^verbatim>\<open>.git\<close> anywhere leaves no
  trace in a run: the loop, and \<^verbatim>\<open>main\<close>, give the exit code and the world (files and
  log: every \<^verbatim>\<open>open\<close> attempted and every line printed) that they give without that
  argument; when it is the only argument the world is the one \<^verbatim>\<open>main\<close> started in.
  By \<open>skipped_examples\<close>, \<^verbatim>\<open>.github/workflows/ci.yml\<close> and \<^verbatim>\<open>budget.gitlog\<close> are
  skipped, and \<^verbatim>\<open>widget.js\<close> is not.
\<close>

theorem skipped_path_ignored:
  assumes "contains p (py ''node_modules'') \<or> contains p (py ''.git'')"
  shows "check_files (before @ p # after) all_valid w = check_files (before @ after) all_valid w
    \<and> main (prog # before @ p # after) w =
        (if before @ after = [] then (0, w) else main (prog # before @ after) w)"
proof -
  from assms have s: "skipped p" by (simp add: skipped_def)
  have 1: "check_files (before @ p # after) all_valid w = check_files (before @ after) all_valid w"
    for all_valid by (rule check_files_skip [OF s])
  have 2: "main (prog # before @ p # after) w =
        (if before @ after = [] then (0, w) else main (prog # before @ after) w)"
  proof (cases "before @ after = []")
    case True
    then show ?thesis using 1 [of True] by (simp add: main_def)
  next
    case False
    then have "2 \<le> length (prog # before @ after)" by (cases "before @ after") auto
    with False show ?thesis using 1 [of True] by (auto simp add: main_def)
  qed
  from 1 2 show ?thesis by blast
qed

theorem skipped_path_ignored_witness:
  "(contains (py ''.github/workflows/ci.yml'') (py ''node_modules'')
      \<or> contains (py ''.github/workflows/ci.yml'') (py ''.git''))
   \<and> main [py ''hook'', py ''.github/workflows/ci.yml'']
          (world_of [(py ''.github/workflows/ci.yml'', py ''on: push'' @ nl)] [])
       = (0, world_of [(py ''.github/workflows/ci.yml'', py ''on: push'' @ nl)] [])"
proof -
  have h: "contains (py ''.github/workflows/ci.yml'') (py ''node_modules'')
      \<or> contains (py ''.github/workflows/ci.yml'') (py ''.git'')"
    by (simp add: py_def)
  show ?thesis
    using skipped_path_ignored [OF h, of "[]" "[]" True
        "world_of [(py ''.github/workflows/ci.yml'', py ''on: push'' @ nl)] []" "py ''hook''"] h
    by simp
qed

end
